theory Spec2Isabelle
  imports Complex_Main
begin

section \<open>Missingness injection (src/data\_generation.py): data model\<close>

text \<open>
  The three mechanisms \<open>mcar\<close>, \<open>mar\<close> and \<open>nmar\<close> of
  \<^verbatim>\<open>src/data_generation.py\<close> work on a pandas data frame and on numpy's
  process-wide random source. Both are made explicit: a call takes the frame and the
  random state and returns the exception it raised (if any) together with the frame and
  the random state as the call left them, since the frame is mutated in place and
  outlives an exception.

  Numbers are exact reals; the special values of a numpy float (NaN and the two
  infinities) are constructors of their own, because the code reaches them by dividing
  by a zero standard deviation. Rounding, overflow and signed zeros are not modelled.
\<close>

datatype py_error =
    Exception string
  | KeyError
  | ValueError
  | TypeError
  | IndexError

datatype npfloat = Fin real | PInf | NInf | NaN

text \<open>A cell of a frame: a string, a boolean, a number, or the missing marker \<open>np.nan\<close>.\<close>

datatype cell = Str string | Bool bool | Num real | Missing

datatype np_dtype = DObject | DBool | DInt64 | DFloat64

record column =
  dtype :: np_dtype
  cells :: "cell list"

text \<open>
  A frame: its row count (\<open>dataset.shape[0]\<close>) and its columns by name. In a frame
  built by pandas every column has \<open>nrows\<close> cells (\<open>well_formed\<close>).
\<close>

record dataset =
  nrows :: nat
  columns :: "string \<rightharpoonup> column"


subsection \<open>The random source\<close>

text \<open>
  The state of \<open>np.random\<close>: the standard-normal variates that \<open>normal()\<close> returns
  and the uniform variates that \<open>random_sample()\<close> returns, in order, with the number of
  each consumed so far. \<open>trials\<close> records every draw \<open>np.random.choice([1, 0], p = [q, _])\<close>
  that returned: the probability \<open>q\<close> asked for and the outcome.
\<close>

record rand_state =
  normals :: "nat \<Rightarrow> real"
  uniforms :: "nat \<Rightarrow> real"
  n_normal :: nat
  n_uniform :: nat
  trials :: "(npfloat \<times> nat) list"

text \<open>numpy's \<open>random_sample\<close> returns floats of the half-open interval \<open>[0, 1)\<close>.\<close>

definition uniform_range :: "rand_state \<Rightarrow> bool" where
  "uniform_range g = (\<forall>n. 0 \<le> uniforms g n \<and> uniforms g n < 1)"

definition normal :: "rand_state \<Rightarrow> real \<times> rand_state" where
  "normal g = (normals g (n_normal g), g\<lparr>n_normal := Suc (n_normal g)\<rparr>)"

definition random_sample :: "rand_state \<Rightarrow> real \<times> rand_state" where
  "random_sample g = (uniforms g (n_uniform g), g\<lparr>n_uniform := Suc (n_uniform g)\<rparr>)"

text \<open>The tolerance of \<open>choice\<close> on the sum of \<open>p\<close>: \<open>sqrt(finfo(float64).eps)\<close>, that is \<open>2^-26\<close>.\<close>

definition atol :: real where
  "atol = 1 / 2 ^ 26"

text \<open>
  \<open>np.random.choice([1, 0], p = [p1, p0])\<close>. numpy raises ValueError when \<open>p\<close> holds a
  NaN, a negative entry, or does not sum to 1 (an infinite entry fails one of the three);
  otherwise it draws one uniform \<open>u\<close> and returns the first entry whose cumulative
  probability exceeds it: 1 when \<open>u < p1 / (p1 + p0)\<close>, else 0.
\<close>

definition random_choice ::
  "npfloat \<Rightarrow> npfloat \<Rightarrow> rand_state \<Rightarrow> py_error + nat \<times> rand_state" where
  "random_choice p1 p0 g =
     (case (p1, p0) of
        (Fin a, Fin c) \<Rightarrow>
          if a < 0 \<or> c < 0 then Inl ValueError
          else if \<bar>a + c - 1\<bar> > atol then Inl ValueError
          else
            (let (u, g') = random_sample g;
                 r = (if u < a / (a + c) then 1 else 0)
             in Inr (r, g'\<lparr>trials := trials g' @ [(p1, r)]\<rparr>))
      | _ \<Rightarrow> Inl ValueError)"

subsection \<open>Float arithmetic with NaN and infinities\<close>

fun np_sub :: "npfloat \<Rightarrow> npfloat \<Rightarrow> npfloat" where
  "np_sub NaN _ = NaN"
| "np_sub _ NaN = NaN"
| "np_sub (Fin a) (Fin c) = Fin (a - c)"
| "np_sub (Fin _) PInf = NInf"
| "np_sub (Fin _) NInf = PInf"
| "np_sub PInf PInf = NaN"
| "np_sub PInf _ = PInf"
| "np_sub NInf NInf = NaN"
| "np_sub NInf _ = NInf"

fun np_mul :: "npfloat \<Rightarrow> npfloat \<Rightarrow> npfloat" where
  "np_mul NaN _ = NaN"
| "np_mul _ NaN = NaN"
| "np_mul (Fin a) (Fin c) = Fin (a * c)"
| "np_mul (Fin a) PInf = (if a = 0 then NaN else if 0 < a then PInf else NInf)"
| "np_mul (Fin a) NInf = (if a = 0 then NaN else if 0 < a then NInf else PInf)"
| "np_mul PInf (Fin c) = (if c = 0 then NaN else if 0 < c then PInf else NInf)"
| "np_mul NInf (Fin c) = (if c = 0 then NaN else if 0 < c then NInf else PInf)"
| "np_mul PInf PInf = PInf"
| "np_mul NInf NInf = PInf"
| "np_mul PInf NInf = NInf"
| "np_mul NInf PInf = NInf"

text \<open>
  Division of numpy floats does not raise: \<open>0 / 0\<close> is NaN and \<open>x / 0\<close> is an infinity
  (numpy only warns).
\<close>

fun np_div :: "npfloat \<Rightarrow> npfloat \<Rightarrow> npfloat" where
  "np_div NaN _ = NaN"
| "np_div _ NaN = NaN"
| "np_div (Fin a) (Fin c) =
     (if c = 0 then (if a = 0 then NaN else if 0 < a then PInf else NInf) else Fin (a / c))"
| "np_div (Fin _) _ = Fin 0"
| "np_div PInf (Fin c) = (if 0 \<le> c then PInf else NInf)"
| "np_div NInf (Fin c) = (if 0 \<le> c then NInf else PInf)"
| "np_div _ _ = NaN"

text \<open>The helper \<open>sig\<close> of \<open>mar\<close> and \<open>nmar\<close>: \<open>1 / (1 + np.exp(-x))\<close>.\<close>

fun sig :: "npfloat \<Rightarrow> npfloat" where
  "sig (Fin x) = Fin (1 / (1 + exp (- x)))"
| "sig PInf = Fin 1"
| "sig NInf = Fin 0"
| "sig NaN = NaN"

subsection \<open>Frame operations\<close>

text \<open>\<open>dataset[column]\<close>: KeyError when the frame has no such column.\<close>

definition getitem :: "dataset \<Rightarrow> string \<Rightarrow> py_error + column" where
  "getitem d c = (case columns d c of None \<Rightarrow> Inl KeyError | Some s \<Rightarrow> Inr s)"

text \<open>\<open>dataset.dtypes.loc[column]\<close>.\<close>

definition dtypes_loc :: "dataset \<Rightarrow> string \<Rightarrow> py_error + np_dtype" where
  "dtypes_loc d c = (case columns d c of None \<Rightarrow> Inl KeyError | Some s \<Rightarrow> Inr (dtype s))"

text \<open>\<open>dataset.iloc[i, dataset.columns.get_loc(column)]\<close>.\<close>

definition iloc :: "dataset \<Rightarrow> nat \<Rightarrow> string \<Rightarrow> py_error + cell" where
  "iloc d i c =
     (case columns d c of
        None \<Rightarrow> Inl KeyError
      | Some s \<Rightarrow> if i < length (cells s) then Inr (cells s ! i) else Inl IndexError)"

text \<open>
  Writing NaN into a column makes pandas widen its type when the type has no NaN:
  a boolean column becomes an object column, an integer column a float column.
\<close>

fun upcast :: "np_dtype \<Rightarrow> np_dtype" where
  "upcast DBool = DObject"
| "upcast DInt64 = DFloat64"
| "upcast t = t"

text \<open>
  \<open>dataset[column].iloc[i] = np.nan\<close>, taken to write through to the frame (pandas
  without copy-on-write, which the code relies on).
\<close>

definition set_nan :: "dataset \<Rightarrow> string \<Rightarrow> nat \<Rightarrow> py_error + dataset" where
  "set_nan d c i =
     (case columns d c of
        None \<Rightarrow> Inl KeyError
      | Some s \<Rightarrow>
          if i < length (cells s)
          then Inr (d\<lparr>columns := (columns d)(c \<mapsto> \<lparr>dtype = upcast (dtype s), cells = (cells s)[i := Missing]\<rparr>)\<rparr>)
          else Inl IndexError)"

text \<open>\<open>Series.unique()\<close>: the distinct values in order of first appearance.\<close>

definition unique :: "'a list \<Rightarrow> 'a list" where
  "unique xs = rev (remdups (rev xs))"

text \<open>
  \<open>np.mean\<close> and \<open>np.std\<close> of a column go to the pandas reductions, which skip
  missing cells and give NaN when nothing is left; \<open>np.std\<close> is the population
  standard deviation (\<open>ddof = 0\<close>). A column of numeric type holds numbers and
  missing markers only.
\<close>

fun numbers :: "cell list \<Rightarrow> real list" where
  "numbers [] = []"
| "numbers (Num x # cs) = x # numbers cs"
| "numbers (_ # cs) = numbers cs"

definition np_mean :: "cell list \<Rightarrow> npfloat" where
  "np_mean cs =
     (case numbers cs of [] \<Rightarrow> NaN | x # xs \<Rightarrow> Fin (sum_list (x # xs) / real (length (x # xs))))"

definition np_std :: "cell list \<Rightarrow> npfloat" where
  "np_std cs =
     (case numbers cs of
        [] \<Rightarrow> NaN
      | x # xs \<Rightarrow>
          (let m = sum_list (x # xs) / real (length (x # xs))
           in Fin (sqrt (sum_list (map (\<lambda>y. (y - m)\<^sup>2) (x # xs)) / real (length (x # xs))))))"

section \<open>The mechanisms\<close>

subsection \<open>mcar\<close>

text \<open>
  \<^verbatim>\<open>
  for i, val in enumerate(dataset[column]):
      if np.random.choice([1, 0], p = [p, 1 - p]) == 1:
          dataset[column].iloc[i] = np.nan
  \<close>
\<close>

fun mcar_loop ::
  "string \<Rightarrow> real \<Rightarrow> (nat \<times> cell) list \<Rightarrow> dataset \<Rightarrow> rand_state
     \<Rightarrow> py_error option \<times> dataset \<times> rand_state" where
  "mcar_loop column p [] d g = (None, d, g)"
| "mcar_loop column p ((i, val) # rest) d g =
     (case random_choice (Fin p) (Fin (1 - p)) g of
        Inl e \<Rightarrow> (Some e, d, g)
      | Inr (r, g') \<Rightarrow>
          if r = 1
          then (case set_nan d column i of
                  Inl e \<Rightarrow> (Some e, d, g')
                | Inr d' \<Rightarrow> mcar_loop column p rest d' g')
          else mcar_loop column p rest d g')"

definition mcar ::
  "dataset \<Rightarrow> string \<Rightarrow> real \<Rightarrow> rand_state \<Rightarrow> py_error option \<times> dataset \<times> rand_state" where
  "mcar d column p g =
     (if p < 0 \<or> p > 1
      then (Some (Exception ''probability of missing values must be between 0 and 1''), d, g)
      else
        (case getitem d column of
           Inl e \<Rightarrow> (Some e, d, g)
         | Inr s \<Rightarrow> mcar_loop column p (enumerate 0 (cells s)) d g))"

subsection \<open>mar\<close>

text \<open>
  \<open>cat_dict = {cat: sig(np.random.normal()) for cat in dataset[dep_column].unique()}\<close>:
  one draw per element of the list, in order, a later entry replacing an earlier one of
  the same key.
\<close>

fun cat_dict_of ::
  "cell list \<Rightarrow> (cell \<rightharpoonup> npfloat) \<Rightarrow> rand_state \<Rightarrow> (cell \<rightharpoonup> npfloat) \<times> rand_state" where
  "cat_dict_of [] m g = (m, g)"
| "cat_dict_of (cat # cats) m g =
     (let (z, g') = normal g in cat_dict_of cats (m(cat \<mapsto> sig (Fin z))) g')"

text \<open>
  \<open>cat_dict[val]\<close>. The missing marker is one value here, so looking it up finds the
  entry that \<open>unique()\<close> gave it.
\<close>

definition dict_get :: "(cell \<rightharpoonup> npfloat) \<Rightarrow> cell \<Rightarrow> py_error + npfloat" where
  "dict_get m k = (case m k of None \<Rightarrow> Inl KeyError | Some v \<Rightarrow> Inr v)"

text \<open>
  A cell as an operand of float arithmetic: the missing marker is NaN, a Python boolean
  counts as 0 or 1, a string raises TypeError.
\<close>

fun as_float :: "cell \<Rightarrow> py_error + npfloat" where
  "as_float (Num x) = Inr (Fin x)"
| "as_float Missing = Inr NaN"
| "as_float (Bool v) = Inr (Fin (if v then 1 else 0))"
| "as_float (Str _) = Inl TypeError"

text \<open>The helper \<open>norm\<close> of the numeric branch: \<open>(val - mean) / std\<close>.\<close>

definition norm_z :: "cell \<Rightarrow> npfloat \<Rightarrow> npfloat \<Rightarrow> py_error + npfloat" where
  "norm_z val mean std =
     (case as_float val of Inl e \<Rightarrow> Inl e | Inr v \<Rightarrow> Inr (np_div (np_sub v mean) std))"

text \<open>
  \<^verbatim>\<open>
  for i in range(dataset.shape[0]):
      dep_val = dataset.iloc[i, dataset.columns.get_loc(dep_column)]
      if np.random.choice([1, 0], p = [cat_dict[dep_val] * b, 1 - (cat_dict[dep_val] * b)]) == 1:
          dataset[miss_column].iloc[i] = np.nan
  \<close>
\<close>

fun mar_cat_loop ::
  "string \<Rightarrow> string \<Rightarrow> (cell \<rightharpoonup> npfloat) \<Rightarrow> real \<Rightarrow> nat list \<Rightarrow> dataset \<Rightarrow> rand_state
     \<Rightarrow> py_error option \<times> dataset \<times> rand_state" where
  "mar_cat_loop miss_column dep_column cat_dict b [] d g = (None, d, g)"
| "mar_cat_loop miss_column dep_column cat_dict b (i # rest) d g =
     (case iloc d i dep_column of
        Inl e \<Rightarrow> (Some e, d, g)
      | Inr dep_val \<Rightarrow>
          (case dict_get cat_dict dep_val of
             Inl e \<Rightarrow> (Some e, d, g)
           | Inr pr \<Rightarrow>
               (case random_choice (np_mul pr (Fin b)) (np_sub (Fin 1) (np_mul pr (Fin b))) g of
                  Inl e \<Rightarrow> (Some e, d, g)
                | Inr (r, g') \<Rightarrow>
                    if r = 1
                    then (case set_nan d miss_column i of
                            Inl e \<Rightarrow> (Some e, d, g')
                          | Inr d' \<Rightarrow> mar_cat_loop miss_column dep_column cat_dict b rest d' g')
                    else mar_cat_loop miss_column dep_column cat_dict b rest d g')))"

text \<open>
  \<^verbatim>\<open>
  for i in range(dataset.shape[0]):
      dep_val = dataset.iloc[i, dataset.columns.get_loc(dep_column)]
      prob = sig(norm(dep_val, mean, std))
      if np.random.choice([1, 0], p = [prob * b, 1 - (prob * b)]) == 1:
          dataset[miss_column].iloc[i] = np.nan
  \<close>
\<close>

fun mar_num_loop ::
  "string \<Rightarrow> string \<Rightarrow> npfloat \<Rightarrow> npfloat \<Rightarrow> real \<Rightarrow> nat list \<Rightarrow> dataset \<Rightarrow> rand_state
     \<Rightarrow> py_error option \<times> dataset \<times> rand_state" where
  "mar_num_loop miss_column dep_column mean std b [] d g = (None, d, g)"
| "mar_num_loop miss_column dep_column mean std b (i # rest) d g =
     (case iloc d i dep_column of
        Inl e \<Rightarrow> (Some e, d, g)
      | Inr dep_val \<Rightarrow>
          (case norm_z dep_val mean std of
             Inl e \<Rightarrow> (Some e, d, g)
           | Inr z \<Rightarrow>
               (case random_choice (np_mul (sig z) (Fin b)) (np_sub (Fin 1) (np_mul (sig z) (Fin b))) g of
                  Inl e \<Rightarrow> (Some e, d, g)
                | Inr (r, g') \<Rightarrow>
                    if r = 1
                    then (case set_nan d miss_column i of
                            Inl e \<Rightarrow> (Some e, d, g')
                          | Inr d' \<Rightarrow> mar_num_loop miss_column dep_column mean std b rest d' g')
                    else mar_num_loop miss_column dep_column mean std b rest d g')))"

text \<open>The two branches of \<open>mar\<close>, and \<open>mar\<close> itself.\<close>

definition mar_categorical ::
  "dataset \<Rightarrow> string \<Rightarrow> string \<Rightarrow> real \<Rightarrow> rand_state \<Rightarrow> py_error option \<times> dataset \<times> rand_state" where
  "mar_categorical d miss_column dep_column b g =
     (case getitem d dep_column of
        Inl e \<Rightarrow> (Some e, d, g)
      | Inr s \<Rightarrow>
          (let (cat_dict, g') = cat_dict_of (unique (cells s)) Map.empty g
           in mar_cat_loop miss_column dep_column cat_dict b [0..<nrows d] d g'))"

definition mar_numeric ::
  "dataset \<Rightarrow> string \<Rightarrow> string \<Rightarrow> real \<Rightarrow> rand_state \<Rightarrow> py_error option \<times> dataset \<times> rand_state" where
  "mar_numeric d miss_column dep_column b g =
     (case getitem d dep_column of
        Inl e \<Rightarrow> (Some e, d, g)
      | Inr s \<Rightarrow>
          (let mean = np_mean (cells s); std = np_std (cells s)
           in mar_num_loop miss_column dep_column mean std b [0..<nrows d] d g))"

definition mar ::
  "dataset \<Rightarrow> string \<Rightarrow> string \<Rightarrow> real \<Rightarrow> rand_state \<Rightarrow> py_error option \<times> dataset \<times> rand_state" where
  "mar d miss_column dep_column b g =
     (if b < 0 \<or> b > 1
      then (Some (Exception ''beta value must be between 0 and 1''), d, g)
      else
        (case dtypes_loc d dep_column of
           Inl e \<Rightarrow> (Some e, d, g)
         | Inr t \<Rightarrow>
             if t = DObject \<or> t = DBool
             then mar_categorical d miss_column dep_column b g
             else mar_numeric d miss_column dep_column b g))"

subsection \<open>nmar\<close>

text \<open>
  \<^verbatim>\<open>
  for i, val in enumerate(dataset[column]):
      if np.random.choice([1, 0], p = [cat_dict[val] * b, 1 - (cat_dict[val] * b)]) == 1:
          dataset[column].iloc[i] = np.nan
  \<close>
\<close>

fun nmar_cat_loop ::
  "string \<Rightarrow> (cell \<rightharpoonup> npfloat) \<Rightarrow> real \<Rightarrow> (nat \<times> cell) list \<Rightarrow> dataset \<Rightarrow> rand_state
     \<Rightarrow> py_error option \<times> dataset \<times> rand_state" where
  "nmar_cat_loop column cat_dict b [] d g = (None, d, g)"
| "nmar_cat_loop column cat_dict b ((i, val) # rest) d g =
     (case dict_get cat_dict val of
        Inl e \<Rightarrow> (Some e, d, g)
      | Inr pr \<Rightarrow>
          (case random_choice (np_mul pr (Fin b)) (np_sub (Fin 1) (np_mul pr (Fin b))) g of
             Inl e \<Rightarrow> (Some e, d, g)
           | Inr (r, g') \<Rightarrow>
               if r = 1
               then (case set_nan d column i of
                       Inl e \<Rightarrow> (Some e, d, g')
                     | Inr d' \<Rightarrow> nmar_cat_loop column cat_dict b rest d' g')
               else nmar_cat_loop column cat_dict b rest d g'))"

text \<open>
  \<^verbatim>\<open>
  for i, val in enumerate(dataset[column]):
      prob = sig(norm(val, mean, std))
      if np.random.choice([1, 0], p = [prob * b, 1 - (prob * b)]) == 1:
          dataset[column].iloc[i] = np.nan
  \<close>
\<close>

fun nmar_num_loop ::
  "string \<Rightarrow> npfloat \<Rightarrow> npfloat \<Rightarrow> real \<Rightarrow> (nat \<times> cell) list \<Rightarrow> dataset \<Rightarrow> rand_state
     \<Rightarrow> py_error option \<times> dataset \<times> rand_state" where
  "nmar_num_loop column mean std b [] d g = (None, d, g)"
| "nmar_num_loop column mean std b ((i, val) # rest) d g =
     (case norm_z val mean std of
        Inl e \<Rightarrow> (Some e, d, g)
      | Inr z \<Rightarrow>
          (case random_choice (np_mul (sig z) (Fin b)) (np_sub (Fin 1) (np_mul (sig z) (Fin b))) g of
             Inl e \<Rightarrow> (Some e, d, g)
           | Inr (r, g') \<Rightarrow>
               if r = 1
               then (case set_nan d column i of
                       Inl e \<Rightarrow> (Some e, d, g')
                     | Inr d' \<Rightarrow> nmar_num_loop column mean std b rest d' g')
               else nmar_num_loop column mean std b rest d g'))"

text \<open>The two branches of \<open>nmar\<close>, and \<open>nmar\<close> itself.\<close>

definition nmar_categorical ::
  "dataset \<Rightarrow> string \<Rightarrow> real \<Rightarrow> rand_state \<Rightarrow> py_error option \<times> dataset \<times> rand_state" where
  "nmar_categorical d column b g =
     (case getitem d column of
        Inl e \<Rightarrow> (Some e, d, g)
      | Inr s \<Rightarrow>
          (let (cat_dict, g') = cat_dict_of (unique (cells s)) Map.empty g
           in nmar_cat_loop column cat_dict b (enumerate 0 (cells s)) d g'))"

definition nmar_numeric ::
  "dataset \<Rightarrow> string \<Rightarrow> real \<Rightarrow> rand_state \<Rightarrow> py_error option \<times> dataset \<times> rand_state" where
  "nmar_numeric d column b g =
     (case getitem d column of
        Inl e \<Rightarrow> (Some e, d, g)
      | Inr s \<Rightarrow>
          (let mean = np_mean (cells s); std = np_std (cells s)
           in nmar_num_loop column mean std b (enumerate 0 (cells s)) d g))"

definition nmar ::
  "dataset \<Rightarrow> string \<Rightarrow> real \<Rightarrow> rand_state \<Rightarrow> py_error option \<times> dataset \<times> rand_state" where
  "nmar d column b g =
     (if b < 0 \<or> b > 1
      then (Some (Exception ''beta value must be between 0 and 1''), d, g)
      else
        (case dtypes_loc d column of
           Inl e \<Rightarrow> (Some e, d, g)
         | Inr t \<Rightarrow>
             if t = DObject \<or> t = DBool
             then nmar_categorical d column b g
             else nmar_numeric d column b g))"

subsection \<open>The shape the five loops share\<close>

text \<open>
  Each loop walks the rows, computes the row's trial probability \<open>q\<close> (which may raise),
  draws \<open>np.random.choice([1, 0], p = [q, 1 - q])\<close> and on 1 writes the missing marker into
  the row's cell of the target column. \<open>for_rows\<close> is that shape with the row index
  \<open>idx\<close> and the probability \<open>prob\<close> as parameters; the lemmas \<open>*_loop_for_rows\<close>
  below show each loop of the source to be an instance, so that a property of the shape
  is proved once.
\<close>

fun for_rows ::
  "('a \<Rightarrow> nat) \<Rightarrow> (dataset \<Rightarrow> 'a \<Rightarrow> py_error + npfloat) \<Rightarrow> string \<Rightarrow> 'a list \<Rightarrow> dataset \<Rightarrow> rand_state
     \<Rightarrow> py_error option \<times> dataset \<times> rand_state" where
  "for_rows idx prob column [] d g = (None, d, g)"
| "for_rows idx prob column (x # rest) d g =
     (case prob d x of
        Inl e \<Rightarrow> (Some e, d, g)
      | Inr q \<Rightarrow>
          (case random_choice q (np_sub (Fin 1) q) g of
             Inl e \<Rightarrow> (Some e, d, g)
           | Inr (r, g') \<Rightarrow>
               if r = 1
               then (case set_nan d column (idx x) of
                       Inl e \<Rightarrow> (Some e, d, g')
                     | Inr d' \<Rightarrow> for_rows idx prob column rest d' g')
               else for_rows idx prob column rest d g'))"

text \<open>The trial probability of a row in each loop.\<close>

definition cat_prob :: "(cell \<rightharpoonup> npfloat) \<Rightarrow> real \<Rightarrow> cell \<Rightarrow> py_error + npfloat" where
  "cat_prob cat_dict b val =
     (case dict_get cat_dict val of Inl e \<Rightarrow> Inl e | Inr pr \<Rightarrow> Inr (np_mul pr (Fin b)))"

definition num_prob :: "npfloat \<Rightarrow> npfloat \<Rightarrow> real \<Rightarrow> cell \<Rightarrow> py_error + npfloat" where
  "num_prob mean std b val =
     (case norm_z val mean std of Inl e \<Rightarrow> Inl e | Inr z \<Rightarrow> Inr (np_mul (sig z) (Fin b)))"

definition at_row :: "string \<Rightarrow> (cell \<Rightarrow> py_error + npfloat) \<Rightarrow> dataset \<Rightarrow> nat \<Rightarrow> py_error + npfloat" where
  "at_row dep_column f d i = (case iloc d i dep_column of Inl e \<Rightarrow> Inl e | Inr v \<Rightarrow> f v)"

definition marked :: "string \<Rightarrow> nat set \<Rightarrow> dataset \<Rightarrow> dataset \<Rightarrow> bool" where
  "marked c J d d' =
     (nrows d' = nrows d \<and>
      (\<forall>n. n \<noteq> c \<longrightarrow> columns d' n = columns d n) \<and>
      (case columns d c of
         None \<Rightarrow> columns d' c = None
       | Some s \<Rightarrow>
           (\<exists>s'. columns d' c = Some s' \<and> length (cells s') = length (cells s) \<and>
              (\<forall>i<length (cells s). cells s' ! i = cells s ! i \<or> (i \<in> J \<and> cells s' ! i = Missing)))))"

text \<open>
  Example inputs: the frame of the specification's scenario (a string column
  \<open>region\<close> and a float column \<open>sales\<close>), and a random state whose uniform variates
  alternate between 0.1 and 0.9 and whose normal variates are all 0.
\<close>

definition example_frame :: dataset where
  "example_frame =
     \<lparr>nrows = 4,
      columns =
        [''region'' \<mapsto> \<lparr>dtype = DObject, cells = [Str ''A'', Str ''A'', Str ''B'', Str ''B'']\<rparr>,
         ''sales'' \<mapsto> \<lparr>dtype = DFloat64, cells = [Num 10, Num 20, Num 30, Num 40]\<rparr>]\<rparr>"

definition example_rng :: rand_state where
  "example_rng =
     \<lparr>normals = (\<lambda>n. 0),
      uniforms = (\<lambda>n. if even n then 1 / 10 else 9 / 10),
      n_normal = 0, n_uniform = 0, trials = []\<rparr>"

text \<open>The draws of \<open>np.random.choice\<close> made between two random states.\<close>

definition new_trials :: "rand_state \<Rightarrow> rand_state \<Rightarrow> (npfloat \<times> nat) list" where
  "new_trials g g' = drop (length (trials g)) (trials g')"

text \<open>
  The trial probability of a row does not change when cells of other rows of the target
  column are marked.
\<close>

definition respects_marks ::
  "(dataset \<Rightarrow> 'a \<Rightarrow> py_error + npfloat) \<Rightarrow> string \<Rightarrow> ('a \<Rightarrow> nat) \<Rightarrow> 'a list \<Rightarrow> dataset \<Rightarrow> bool" where
  "respects_marks prob c idx xs d =
     (\<forall>x\<in>set xs. \<forall>dk. marked c (- {idx x}) d dk \<longrightarrow> prob dk x = prob d x)"

text \<open>
  What a recorded draw \<open>t\<close> says about its row \<open>x\<close>: the probability asked for is the
  row's, it lies in \<open>[0, 1]\<close>, the outcome is 1 exactly when the uniform variate drawn
  was below it, and when the loop returned, the row's cell is the missing marker on
  outcome 1 and the original cell on outcome 0.
\<close>

definition row_trial ::
  "(dataset \<Rightarrow> 'a \<Rightarrow> py_error + npfloat) \<Rightarrow> string \<Rightarrow> ('a \<Rightarrow> nat) \<Rightarrow> (nat \<Rightarrow> real) \<Rightarrow>
     dataset \<Rightarrow> py_error option \<Rightarrow> dataset \<Rightarrow> 'a \<Rightarrow> npfloat \<times> nat \<Rightarrow> bool" where
  "row_trial prob c idx us d e d' x t =
     (prob d x = Inr (fst t) \<and>
      (\<exists>a u. fst t = Fin a \<and> 0 \<le> a \<and> a \<le> 1 \<and> u \<in> range us \<and> snd t = (if u < a then 1 else 0)) \<and>
      (e = None \<longrightarrow> iloc d' (idx x) c = (if snd t = 0 then iloc d (idx x) c else Inr Missing)))"

text \<open>The parts of a call's result: the exception raised, the frame and the random state it left.\<close>

definition raised :: "py_error option \<times> dataset \<times> rand_state \<Rightarrow> py_error option" where
  "raised res = fst res"

definition frame_after :: "py_error option \<times> dataset \<times> rand_state \<Rightarrow> dataset" where
  "frame_after res = fst (snd res)"

definition rng_after :: "py_error option \<times> dataset \<times> rand_state \<Rightarrow> rand_state" where
  "rng_after res = snd (snd res)"

text \<open>A frame with cells that are already missing.\<close>

definition gap_frame :: dataset where
  "gap_frame =
     \<lparr>nrows = 3,
      columns =
        [''group'' \<mapsto> \<lparr>dtype = DObject, cells = [Str ''x'', Missing, Str ''y'']\<rparr>,
         ''score'' \<mapsto> \<lparr>dtype = DFloat64, cells = [Num 1, Missing, Num 3]\<rparr>]\<rparr>"

text \<open>A frame whose numeric column \<open>price\<close> is constant.\<close>

definition constant_frame :: dataset where
  "constant_frame =
     \<lparr>nrows = 3,
      columns =
        [''price'' \<mapsto> \<lparr>dtype = DFloat64, cells = [Num 5, Num 5, Num 5]\<rparr>,
         ''sales'' \<mapsto> \<lparr>dtype = DFloat64, cells = [Num 10, Num 20, Num 30]\<rparr>]\<rparr>"

section \<open>Properties\<close>

lemma mcar_loop_for_rows:
  "mcar_loop column p xs d g = for_rows fst (\<lambda>_ _. Inr (Fin p)) column xs d g"
  by (induction xs arbitrary: d g) (auto split: sum.splits prod.splits)

lemma mar_cat_loop_for_rows:
  "mar_cat_loop miss_column dep_column cat_dict b xs d g =
     for_rows id (at_row dep_column (cat_prob cat_dict b)) miss_column xs d g"
  by (induction xs arbitrary: d g)
     (auto simp: at_row_def cat_prob_def split: sum.splits prod.splits)

lemma mar_num_loop_for_rows:
  "mar_num_loop miss_column dep_column mean std b xs d g =
     for_rows id (at_row dep_column (num_prob mean std b)) miss_column xs d g"
  by (induction xs arbitrary: d g)
     (auto simp: at_row_def num_prob_def split: sum.splits prod.splits)

lemma nmar_cat_loop_for_rows:
  "nmar_cat_loop column cat_dict b xs d g =
     for_rows fst (\<lambda>_ x. cat_prob cat_dict b (snd x)) column xs d g"
  by (induction xs arbitrary: d g)
     (auto simp: cat_prob_def split: sum.splits prod.splits)

lemma nmar_num_loop_for_rows:
  "nmar_num_loop column mean std b xs d g =
     for_rows fst (\<lambda>_ x. num_prob mean std b (snd x)) column xs d g"
  by (induction xs arbitrary: d g)
     (auto simp: num_prob_def split: sum.splits prod.splits)

lemma marked_refl: "marked c J d d"
  by (auto simp: marked_def split: option.splits)

lemma marked_mono: "marked c J d d' \<Longrightarrow> J \<subseteq> K \<Longrightarrow> marked c K d d'"
  by (fastforce simp: marked_def split: option.splits)

lemma marked_trans:
  assumes "marked c J d d1" and "marked c K d1 d2"
  shows "marked c (J \<union> K) d d2"
proof (cases "columns d c")
  case None
  with assms show ?thesis by (auto simp: marked_def)
next
  case (Some s)
  from assms(1) Some obtain s1 where s1: "columns d1 c = Some s1" "length (cells s1) = length (cells s)"
    "\<forall>i<length (cells s). cells s1 ! i = cells s ! i \<or> (i \<in> J \<and> cells s1 ! i = Missing)"
    by (auto simp: marked_def)
  from assms(2) s1 obtain s2 where s2: "columns d2 c = Some s2" "length (cells s2) = length (cells s1)"
    "\<forall>i<length (cells s1). cells s2 ! i = cells s1 ! i \<or> (i \<in> K \<and> cells s2 ! i = Missing)"
    by (auto simp: marked_def)
  have "\<forall>i<length (cells s). cells s2 ! i = cells s ! i \<or> (i \<in> J \<union> K \<and> cells s2 ! i = Missing)"
    using s1 s2 by (metis Un_iff)
  moreover have "nrows d2 = nrows d" "\<forall>n. n \<noteq> c \<longrightarrow> columns d2 n = columns d n"
    using assms by (auto simp: marked_def)
  ultimately show ?thesis using Some s1 s2 by (simp add: marked_def)
qed

lemma set_nan_marked: "set_nan d c i = Inr d' \<Longrightarrow> marked c {i} d d'"
  by (auto simp: set_nan_def marked_def nth_list_update split: option.splits if_splits)

lemma marked_absent: "marked c J d d' \<Longrightarrow> columns d c = None \<Longrightarrow> d' = d"
  by (auto simp: marked_def intro!: dataset.equality ext) (metis)

lemma marked_iloc_outside: "marked c J d d' \<Longrightarrow> i \<notin> J \<Longrightarrow> iloc d' i n = iloc d i n"
  by (cases "n = c"; cases "columns d c") (auto simp: marked_def iloc_def)

lemma marked_iloc_missing: "marked c J d d' \<Longrightarrow> iloc d i n = Inr Missing \<Longrightarrow> iloc d' i n = Inr Missing"
  by (cases "n = c"; cases "columns d c") (auto simp: marked_def iloc_def split: if_splits)

lemma set_nan_iloc: "set_nan d c i = Inr d' \<Longrightarrow> iloc d' i c = Inr Missing"
  by (auto simp: set_nan_def iloc_def split: option.splits if_splits)

lemma for_rows_Cons_cases [consumes 1, case_names prob_err choice_err zero set_err one]:
  assumes "for_rows idx prob c (x # xs) d g = (e, d', g')"
  obtains
    err where "prob d x = Inl err" "e = Some err" "d' = d" "g' = g"
  | q err where "prob d x = Inr q" "random_choice q (np_sub (Fin 1) q) g = Inl err"
      "e = Some err" "d' = d" "g' = g"
  | q r g1 where "prob d x = Inr q" "random_choice q (np_sub (Fin 1) q) g = Inr (r, g1)" "r \<noteq> 1"
      "for_rows idx prob c xs d g1 = (e, d', g')"
  | q g1 err where "prob d x = Inr q" "random_choice q (np_sub (Fin 1) q) g = Inr (1, g1)"
      "set_nan d c (idx x) = Inl err" "e = Some err" "d' = d" "g' = g1"
  | q g1 d1 where "prob d x = Inr q" "random_choice q (np_sub (Fin 1) q) g = Inr (1, g1)"
      "set_nan d c (idx x) = Inr d1" "for_rows idx prob c xs d1 g1 = (e, d', g')"
proof (cases "prob d x")
  case (Inl err)
  with assms have "e = Some err" "d' = d" "g' = g" by simp_all
  with Inl show ?thesis by (rule that(1))
next
  case (Inr q)
  show ?thesis
  proof (cases "random_choice q (np_sub (Fin 1) q) g")
    case (Inl err)
    with Inr assms have "e = Some err" "d' = d" "g' = g" by simp_all
    with Inr Inl show ?thesis by (rule that(2))
  next
    case Inr2: (Inr rg)
    obtain r g1 where rg: "rg = (r, g1)" by (cases rg)
    show ?thesis
    proof (cases "r = 1")
      case False
      with Inr Inr2 rg assms have "for_rows idx prob c xs d g1 = (e, d', g')" by simp
      with Inr Inr2 rg False show ?thesis by (intro that(3)) simp_all
    next
      case True
      show ?thesis
      proof (cases "set_nan d c (idx x)")
        case (Inl err)
        with True Inr Inr2 rg assms have "e = Some err" "d' = d" "g' = g1" by simp_all
        with True Inr Inr2 rg Inl show ?thesis by (intro that(4)) simp_all
      next
        case Inr3: (Inr d1)
        with True Inr Inr2 rg assms have "for_rows idx prob c xs d1 g1 = (e, d', g')" by simp
        with True Inr Inr2 rg Inr3 show ?thesis by (intro that(5)) simp_all
      qed
    qed
  qed
qed

lemma choice_site:
  "random_choice q (np_sub (Fin 1) q) g = Inr (r, g1) \<longleftrightarrow>
     (\<exists>a. q = Fin a \<and> 0 \<le> a \<and> a \<le> 1 \<and>
          r = (if uniforms g (n_uniform g) < a then 1 else 0) \<and>
          g1 = g\<lparr>n_uniform := Suc (n_uniform g), trials := trials g @ [(q, r)]\<rparr>)"
  by (cases q) (auto simp: random_choice_def random_sample_def atol_def)

lemma for_rows_marked:
  "for_rows idx prob c xs d g = (e, d', g') \<Longrightarrow> marked c (idx ` set xs) d d'"
proof (induction xs arbitrary: d g)
  case Nil
  then show ?case by (simp add: marked_refl)
next
  case (Cons x xs)
  from Cons.prems show ?case
  proof (cases rule: for_rows_Cons_cases)
    case (zero q r g1)
    from Cons.IH[OF zero(4)] show ?thesis by (rule marked_mono) auto
  next
    case (one q g1 d1)
    from marked_trans[OF set_nan_marked[OF one(3)] Cons.IH[OF one(4)]]
    show ?thesis by (rule marked_mono) auto
  qed (simp_all add: marked_refl)
qed


text \<open>
  C2. A tuning parameter outside \<open>[0, 1]\<close> (\<open>p\<close> of mcar, \<open>b\<close> of mar and nmar) makes the
  call raise the validation exception at once: the frame is the one passed in and the
  random state is untouched, so nothing was sampled and nothing written.
\<close>

theorem parameter_out_of_range_raises:
  assumes "x < 0 \<or> 1 < x"
  shows "mcar d c x g =
           (Some (Exception ''probability of missing values must be between 0 and 1''), d, g)
       \<and> mar d mc dc x g = (Some (Exception ''beta value must be between 0 and 1''), d, g)
       \<and> nmar d c x g = (Some (Exception ''beta value must be between 0 and 1''), d, g)"
  using assms by (auto simp: mcar_def mar_def nmar_def)

theorem parameter_out_of_range_raises_witness:
  "((3 / 2 :: real) < 0 \<or> 1 < (3 / 2 :: real))
   \<and> mcar example_frame ''sales'' (3 / 2) example_rng =
       (Some (Exception ''probability of missing values must be between 0 and 1''),
        example_frame, example_rng)
   \<and> mar example_frame ''sales'' ''region'' (3 / 2) example_rng =
       (Some (Exception ''beta value must be between 0 and 1''), example_frame, example_rng)
   \<and> nmar example_frame ''sales'' (3 / 2) example_rng =
       (Some (Exception ''beta value must be between 0 and 1''), example_frame, example_rng)"
proof -
  have h: "(3 / 2 :: real) < 0 \<or> 1 < (3 / 2 :: real)" by simp
  show ?thesis
    using h parameter_out_of_range_raises [OF h, of example_frame "''sales''" example_rng "''sales''" "''region''"]
    by simp
qed



lemma respects_marks_tail:
  "respects_marks prob c idx (x # xs) d \<Longrightarrow> respects_marks prob c idx xs d"
  by (simp add: respects_marks_def)

lemma respects_marks_step:
  assumes r: "respects_marks prob c idx (x # xs) d" and dist: "distinct (map idx (x # xs))"
    and m: "marked c {idx x} d d1"
  shows "respects_marks prob c idx xs d1"
    and "\<And>y. y \<in> set xs \<Longrightarrow> prob d1 y = prob d y"
proof -
  have out: "marked c (- {idx y}) d d1" if "y \<in> set xs" for y
  proof -
    from that dist have "idx y \<noteq> idx x" by (auto simp: image_iff)
    then show ?thesis by (intro marked_mono[OF m]) simp
  qed
  show eq: "\<And>y. y \<in> set xs \<Longrightarrow> prob d1 y = prob d y"
    using r out by (simp add: respects_marks_def)
  show "respects_marks prob c idx xs d1"
    unfolding respects_marks_def
  proof (intro ballI allI impI)
    fix y dk assume y: "y \<in> set xs" and mk: "marked c (- {idx y}) d1 dk"
    from marked_trans[OF out[OF y] mk] have "marked c (- {idx y}) d dk" by simp
    with r y have "prob dk y = prob d y" by (simp add: respects_marks_def)
    with eq[OF y] show "prob dk y = prob d1 y" by simp
  qed
qed

lemma row_trial_I:
  assumes "prob d x = Inr (Fin a)" "0 \<le> a" "a \<le> 1"
    and "r = (if uniforms g (n_uniform g) < a then 1 else 0)"
    and "e = None \<longrightarrow> iloc d' (idx x) c = (if r = 0 then iloc d (idx x) c else Inr Missing)"
  shows "row_trial prob c idx (uniforms g) d e d' x (Fin a, r)"
  unfolding row_trial_def fst_conv snd_conv
proof (intro conjI)
  show "\<exists>a' u. Fin a = Fin a' \<and> 0 \<le> a' \<and> a' \<le> 1 \<and> u \<in> range (uniforms g) \<and> r = (if u < a' then 1 else 0)"
    using assms(2,3,4) by (intro exI[of _ a] exI[of _ "uniforms g (n_uniform g)"]) simp
qed (use assms in simp_all)

lemma for_rows_trials:
  assumes "for_rows idx prob c xs d g = (e, d', g')"
    and "distinct (map idx xs)" and "respects_marks prob c idx xs d"
  shows "\<exists>ts. g' = g\<lparr>n_uniform := n_uniform g + length ts, trials := trials g @ ts\<rparr>
           \<and> length ts \<le> length xs \<and> (e = None \<longrightarrow> length ts = length xs)
           \<and> list_all2 (row_trial prob c idx (uniforms g) d e d') (take (length ts) xs) ts"
  using assms
proof (induction xs arbitrary: d g)
  case Nil
  then show ?case by simp
next
  case (Cons x xs)
  note dist = Cons.prems(2) and resp = Cons.prems(3)
  from dist have dist': "distinct (map idx xs)" and notin: "idx x \<notin> idx ` set xs" by auto
  from Cons.prems(1) show ?case
  proof (cases rule: for_rows_Cons_cases)
    case (prob_err err)
    then show ?thesis by (intro exI[of _ "[]"]) simp
  next
    case (choice_err q err)
    then show ?thesis by (intro exI[of _ "[]"]) simp
  next
    case (zero q r g1)
    from zero(2) obtain a where a: "q = Fin a" "0 \<le> a" "a \<le> 1"
      "r = (if uniforms g (n_uniform g) < a then 1 else 0)"
      "g1 = g\<lparr>n_uniform := Suc (n_uniform g), trials := trials g @ [(q, r)]\<rparr>"
      unfolding choice_site by blast
    from a(4) zero(3) have r0: "r = 0" by (simp split: if_splits)
    from Cons.IH[OF zero(4) dist' respects_marks_tail[OF resp]] obtain ts where ts:
      "g' = g1\<lparr>n_uniform := n_uniform g1 + length ts, trials := trials g1 @ ts\<rparr>"
      "length ts \<le> length xs" "e = None \<longrightarrow> length ts = length xs"
      "list_all2 (row_trial prob c idx (uniforms g1) d e d') (take (length ts) xs) ts"
      by blast
    have same: "iloc d' (idx x) c = iloc d (idx x) c"
      using marked_iloc_outside[OF for_rows_marked[OF zero(4)] notin] .
    have head: "row_trial prob c idx (uniforms g) d e d' x (q, r)"
      unfolding a(1) using zero(1) a r0 same by (intro row_trial_I) simp_all
    have "g' = g\<lparr>n_uniform := n_uniform g + length ((q, r) # ts), trials := trials g @ (q, r) # ts\<rparr>"
      using ts(1) a(5) by simp
    moreover have "list_all2 (row_trial prob c idx (uniforms g) d e d')
                     (take (length ((q, r) # ts)) (x # xs)) ((q, r) # ts)"
      using head ts(4) a(5) by simp
    ultimately show ?thesis using ts(2,3) by (intro exI[of _ "(q, r) # ts"]) simp
  next
    case (set_err q g1 err)
    from set_err(2) obtain a where a: "q = Fin a" "0 \<le> a" "a \<le> 1"
      "1 = (if uniforms g (n_uniform g) < a then 1 else (0::nat))"
      "g1 = g\<lparr>n_uniform := Suc (n_uniform g), trials := trials g @ [(q, 1)]\<rparr>"
      unfolding choice_site by blast
    have head: "row_trial prob c idx (uniforms g) d e d' x (q, 1)"
      unfolding a(1) using set_err(1,4) a by (intro row_trial_I) simp_all
    show ?thesis using head set_err(4,6) a(5) by (intro exI[of _ "[(q, 1)]"]) simp
  next
    case (one q g1 d1)
    from one(2) obtain a where a: "q = Fin a" "0 \<le> a" "a \<le> 1"
      "1 = (if uniforms g (n_uniform g) < a then 1 else (0::nat))"
      "g1 = g\<lparr>n_uniform := Suc (n_uniform g), trials := trials g @ [(q, 1)]\<rparr>"
      unfolding choice_site by blast
    note m1 = set_nan_marked[OF one(3)]
    note step = respects_marks_step[OF resp dist m1]
    from Cons.IH[OF one(4) dist' step(1)] obtain ts where ts:
      "g' = g1\<lparr>n_uniform := n_uniform g1 + length ts, trials := trials g1 @ ts\<rparr>"
      "length ts \<le> length xs" "e = None \<longrightarrow> length ts = length xs"
      "list_all2 (row_trial prob c idx (uniforms g1) d1 e d') (take (length ts) xs) ts"
      by blast
    have conv: "row_trial prob c idx (uniforms g) d e d' y t"
      if "y \<in> set (take (length ts) xs)" and "row_trial prob c idx (uniforms g1) d1 e d' y t" for y t
    proof -
      from that(1) have y: "y \<in> set xs" by (rule in_set_takeD)
      with notin have "idx y \<notin> {idx x}" by (metis image_eqI singletonD)
      from marked_iloc_outside[OF m1 this] have "iloc d1 (idx y) c = iloc d (idx y) c" .
      with that(2) step(2)[OF y] a(5) show ?thesis by (simp add: row_trial_def)
    qed
    have tail: "list_all2 (row_trial prob c idx (uniforms g) d e d') (take (length ts) xs) ts"
      using ts(4) conv by (rule list.rel_mono_strong)
    have "iloc d' (idx x) c = Inr Missing"
      using marked_iloc_missing[OF for_rows_marked[OF one(4)] set_nan_iloc[OF one(3)]] .
    then have head: "row_trial prob c idx (uniforms g) d e d' x (q, 1)"
      unfolding a(1) using one(1) a by (intro row_trial_I) simp_all
    have "g' = g\<lparr>n_uniform := n_uniform g + length ((q, 1) # ts), trials := trials g @ (q, 1) # ts\<rparr>"
      using ts(1) a(5) by simp
    moreover have "list_all2 (row_trial prob c idx (uniforms g) d e d')
                     (take (length ((q, 1) # ts)) (x # xs)) ((q, 1) # ts)"
      using head tail by simp
    ultimately show ?thesis using ts(2,3) by (intro exI[of _ "(q, 1) # ts"]) simp
  qed
qed

lemma set_nan_present:
  "columns d c = Some s \<Longrightarrow> i < length (cells s) \<Longrightarrow>
     \<exists>d1 s1. set_nan d c i = Inr d1 \<and> columns d1 c = Some s1 \<and> length (cells s1) = length (cells s)"
  by (simp add: set_nan_def)

lemma for_rows_returns:
  assumes "distinct (map idx xs)" and "respects_marks prob c idx xs d"
    and "\<forall>x\<in>set xs. \<exists>a. prob d x = Inr (Fin a) \<and> 0 \<le> a \<and> a \<le> 1"
    and "columns d c = Some s" and "\<forall>x\<in>set xs. idx x < length (cells s)"
  shows "\<exists>d' g'. for_rows idx prob c xs d g = (None, d', g')"
  using assms
proof (induction xs arbitrary: d g s)
  case Nil
  then show ?case by simp
next
  case (Cons x xs)
  note dist = Cons.prems(1) and resp = Cons.prems(2)
  from dist have dist': "distinct (map idx xs)" by simp
  from Cons.prems(3) obtain a where a: "prob d x = Inr (Fin a)" "0 \<le> a" "a \<le> 1" by auto
  define r :: nat where "r = (if uniforms g (n_uniform g) < a then 1 else 0)"
  define g1 where "g1 = g\<lparr>n_uniform := Suc (n_uniform g), trials := trials g @ [(Fin a, r)]\<rparr>"
  have ch: "random_choice (Fin a) (np_sub (Fin 1) (Fin a)) g = Inr (r, g1)"
    unfolding choice_site using a r_def g1_def by simp
  show ?case
  proof (cases "r = 1")
    case False
    from Cons.IH[OF dist' respects_marks_tail[OF resp], of s g1] Cons.prems(3,4,5)
    obtain d' g' where "for_rows idx prob c xs d g1 = (None, d', g')" by auto
    with a ch False show ?thesis by simp
  next
    case True
    from Cons.prems(4,5) obtain d1 s1 where d1: "set_nan d c (idx x) = Inr d1"
      "columns d1 c = Some s1" "length (cells s1) = length (cells s)"
      using set_nan_present[of d c s "idx x"] by auto
    note step = respects_marks_step[OF resp dist set_nan_marked[OF d1(1)]]
    have "\<forall>y\<in>set xs. \<exists>a. prob d1 y = Inr (Fin a) \<and> 0 \<le> a \<and> a \<le> 1"
      using Cons.prems(3) step(2) by simp
    moreover have "\<forall>y\<in>set xs. idx y < length (cells s1)"
      using Cons.prems(5) d1(3) by simp
    ultimately obtain d' g' where "for_rows idx prob c xs d1 g1 = (None, d', g')"
      using Cons.IH[OF dist' step(1) _ d1(2), of g1] by auto
    with a ch True d1(1) show ?thesis by simp
  qed
qed

lemma for_rows_no_positive:
  assumes "for_rows idx prob c xs d g = (e, d', g')"
    and "uniform_range g" and "\<forall>x\<in>set xs. \<forall>a. prob d x = Inr (Fin a) \<longrightarrow> a \<le> 0"
  shows "d' = d"
  using assms
proof (induction xs arbitrary: g)
  case Nil
  then show ?case by simp
next
  case (Cons x xs)
  have no_one: False if "prob d x = Inr q" "random_choice q (np_sub (Fin 1) q) g = Inr (1, g1)" for q g1
  proof -
    from that(2) obtain a where a: "q = Fin a" "0 \<le> a"
      "1 = (if uniforms g (n_uniform g) < a then 1 else (0::nat))"
      unfolding choice_site by blast
    from Cons.prems(3) that(1) a(1) have "a \<le> 0" by simp
    moreover from a(3) have "uniforms g (n_uniform g) < a" by (simp split: if_splits)
    moreover from Cons.prems(2) have "0 \<le> uniforms g (n_uniform g)" by (simp add: uniform_range_def)
    ultimately show False by simp
  qed
  from Cons.prems(1) show ?case
  proof (cases rule: for_rows_Cons_cases)
    case (zero q r g1)
    from zero(2) have "uniforms g1 = uniforms g" unfolding choice_site by auto
    with Cons.prems(2) have "uniform_range g1" by (simp add: uniform_range_def)
    from Cons.IH[OF zero(4) this] Cons.prems(3) show ?thesis by simp
  next
    case (set_err q g1 err)
    then show ?thesis by simp
  next
    case (one q g1 d1)
    with no_one show ?thesis by blast
  qed simp_all
qed

lemma set_unique [simp]: "set (unique xs) = set xs"
  by (simp add: unique_def)




lemma result_parts: "res = (raised res, frame_after res, rng_after res)"
  by (simp add: raised_def frame_after_def rng_after_def)

lemma row_trialD:
  assumes "row_trial prob c idx us d e d' x t"
  shows "prob d x = Inr (fst t)"
    and "\<exists>a u. fst t = Fin a \<and> 0 \<le> a \<and> a \<le> 1 \<and> u \<in> range us \<and> snd t = (if u < a then 1 else 0)"
    and "e = None \<Longrightarrow> iloc d' (idx x) c = (if snd t = 0 then iloc d (idx x) c else Inr Missing)"
  using assms by (simp_all add: row_trial_def)

lemma respects_marks_const: "respects_marks (\<lambda>_. f) c idx xs d"
  by (simp add: respects_marks_def)

lemma mcar_present:
  "0 \<le> p \<Longrightarrow> p \<le> 1 \<Longrightarrow> columns d c = Some s \<Longrightarrow>
     mcar d c p g = for_rows fst (\<lambda>_ _. Inr (Fin p)) c (enumerate 0 (cells s)) d g"
  by (simp add: mcar_def getitem_def mcar_loop_for_rows)

lemma idx_enumerate: "x \<in> set (enumerate 0 xs) \<Longrightarrow> fst x < length xs"
  by (auto simp: in_set_enumerate_eq)

lemma mcar_returns:
  assumes "0 \<le> p" "p \<le> 1" "columns d c = Some s"
  shows "\<exists>d' g'. mcar d c p g = (None, d', g')"
  unfolding mcar_present[OF assms]
  using assms by (intro for_rows_returns[where s = s])
    (auto simp: respects_marks_const idx_enumerate)

text \<open>
  C3. On an existing column, with uniform variates in \<open>[0, 1)\<close>: \<open>mcar\<close> with \<open>p = 0\<close>
  returns the frame unchanged, and \<open>mcar\<close> with \<open>p = 1\<close> returns the frame with every cell
  of the column overwritten by the missing marker (the other columns and the row count
  as they were).
\<close>

theorem mcar_zero_and_one:
  assumes "uniform_range g" and "columns d c = Some s"
  shows "raised (mcar d c 0 g) = None \<and> frame_after (mcar d c 0 g) = d
       \<and> raised (mcar d c 1 g) = None
       \<and> (\<exists>s'. columns (frame_after (mcar d c 1 g)) c = Some s'
                \<and> cells s' = replicate (length (cells s)) Missing)
       \<and> nrows (frame_after (mcar d c 1 g)) = nrows d
       \<and> (\<forall>n. n \<noteq> c \<longrightarrow> columns (frame_after (mcar d c 1 g)) n = columns d n)"
proof -
  let ?xs = "enumerate 0 (cells s)"
  have p0: "mcar d c 0 g = for_rows fst (\<lambda>_ _. Inr (Fin 0)) c ?xs d g"
    and p1: "mcar d c 1 g = for_rows fst (\<lambda>_ _. Inr (Fin 1)) c ?xs d g"
    using assms(2) by (simp_all add: mcar_present)
  obtain d0 g0 where r0: "mcar d c 0 g = (None, d0, g0)"
    using mcar_returns[of 0 d c s g] assms(2) by auto
  have "d0 = d"
    using for_rows_no_positive[OF r0[unfolded p0] assms(1)] by simp
  obtain d1 g1 where r1: "mcar d c 1 g = (None, d1, g1)"
    using mcar_returns[of 1 d c s g] assms(2) by auto
  have dist: "distinct (map fst ?xs)" by (simp add: map_fst_enumerate)
  from for_rows_trials[OF r1[unfolded p1] dist respects_marks_const]
  obtain ts where ts: "length ts = length ?xs"
    "list_all2 (row_trial (\<lambda>_ _. Inr (Fin 1)) c fst (uniforms g) d None d1) ?xs ts"
    by auto
  note m = for_rows_marked[OF r1[unfolded p1]]
  from m assms(2) obtain s' where s': "columns d1 c = Some s'" "length (cells s') = length (cells s)"
    by (auto simp: marked_def)
  have "cells s' ! i = Missing" if "i < length (cells s)" for i
  proof -
    from that have i: "i < length ?xs" by simp
    from list_all2_nthD[OF ts(2) i] have rt: "row_trial (\<lambda>_ _. Inr (Fin 1)) c fst (uniforms g) d None d1 (?xs ! i) (ts ! i)" .
    from row_trialD(1)[OF rt] have f1: "fst (ts ! i) = Fin 1" by simp
    from row_trialD(2)[OF rt] obtain a u where au: "fst (ts ! i) = Fin a" "u \<in> range (uniforms g)"
      "snd (ts ! i) = (if u < a then 1 else 0)" by blast
    from au(2) assms(1) have "u < 1" by (auto simp: uniform_range_def)
    with au(1,3) f1 have "snd (ts ! i) = 1" by simp
    with row_trialD(3)[OF rt] have "iloc d1 (fst (?xs ! i)) c = Inr Missing" by simp
    with that s' show ?thesis by (simp add: nth_enumerate_eq iloc_def)
  qed
  with s'(2) have "cells s' = replicate (length (cells s)) Missing"
    by (simp add: list_eq_iff_nth_eq)
  moreover from m have "nrows d1 = nrows d" "\<forall>n. n \<noteq> c \<longrightarrow> columns d1 n = columns d n"
    by (simp_all add: marked_def)
  ultimately show ?thesis
    using r0 r1 \<open>d0 = d\<close> s'(1) by (simp add: raised_def frame_after_def)
qed

theorem mcar_zero_and_one_witness:
  "uniform_range example_rng
   \<and> columns example_frame ''sales'' = Some \<lparr>dtype = DFloat64, cells = [Num 10, Num 20, Num 30, Num 40]\<rparr>
   \<and> raised (mcar example_frame ''sales'' 0 example_rng) = None
   \<and> frame_after (mcar example_frame ''sales'' 0 example_rng) = example_frame
   \<and> raised (mcar example_frame ''sales'' 1 example_rng) = None
   \<and> (\<exists>s'. columns (frame_after (mcar example_frame ''sales'' 1 example_rng)) ''sales'' = Some s'
            \<and> cells s' = [Missing, Missing, Missing, Missing])"
proof -
  have h1: "uniform_range example_rng"
    by (simp add: uniform_range_def example_rng_def)
  have h2: "columns example_frame ''sales'' = Some \<lparr>dtype = DFloat64, cells = [Num 10, Num 20, Num 30, Num 40]\<rparr>"
    by (simp add: example_frame_def)
  show ?thesis
    using h1 h2 mcar_zero_and_one [OF h1 h2] by (simp add: numeral_eq_Suc)
qed

lemma respects_marks_at_row: "respects_marks (at_row dc f) mc id xs d"
  unfolding respects_marks_def
proof (intro ballI allI impI)
  fix x dk assume "marked mc (- {id x}) d dk"
  from marked_iloc_outside[OF this, of "id x" dc] show "at_row dc f dk x = at_row dc f d x"
    by (simp add: at_row_def)
qed

lemma mar_cases [case_names invalid absent categorical numeric]:
  obtains
    "b < 0 \<or> 1 < b" "mar d mc dc b g = (Some (Exception ''beta value must be between 0 and 1''), d, g)"
  | "0 \<le> b" "b \<le> 1" "columns d dc = None" "mar d mc dc b g = (Some KeyError, d, g)"
  | s cat_dict g1 where "0 \<le> b" "b \<le> 1" "columns d dc = Some s" "dtype s = DObject \<or> dtype s = DBool"
      "cat_dict_of (unique (cells s)) Map.empty g = (cat_dict, g1)"
      "mar d mc dc b g = for_rows id (at_row dc (cat_prob cat_dict b)) mc [0..<nrows d] d g1"
  | s where "0 \<le> b" "b \<le> 1" "columns d dc = Some s" "dtype s = DInt64 \<or> dtype s = DFloat64"
      "mar d mc dc b g =
         for_rows id (at_row dc (num_prob (np_mean (cells s)) (np_std (cells s)) b)) mc [0..<nrows d] d g"
proof (cases "b < 0 \<or> 1 < b")
  case True
  then show ?thesis by (intro that(1)) (auto simp: mar_def)
next
  case False
  then have b: "0 \<le> b" "b \<le> 1" by auto
  show ?thesis
  proof (cases "columns d dc")
    case None
    with b show ?thesis by (intro that(2)) (auto simp: mar_def dtypes_loc_def)
  next
    case (Some s)
    show ?thesis
    proof (cases "dtype s = DObject \<or> dtype s = DBool")
      case True
      obtain cat_dict g1 where cd: "cat_dict_of (unique (cells s)) Map.empty g = (cat_dict, g1)"
        by (cases "cat_dict_of (unique (cells s)) Map.empty g")
      have "mar d mc dc b g = for_rows id (at_row dc (cat_prob cat_dict b)) mc [0..<nrows d] d g1"
        using b Some True cd
        by (auto simp: mar_def dtypes_loc_def mar_categorical_def getitem_def mar_cat_loop_for_rows)
      with b Some True cd show ?thesis by (intro that(3))
    next
      case False
      then have nt: "dtype s = DInt64 \<or> dtype s = DFloat64" by (cases "dtype s") auto
      have "mar d mc dc b g =
         for_rows id (at_row dc (num_prob (np_mean (cells s)) (np_std (cells s)) b)) mc [0..<nrows d] d g"
        using b Some False
        by (auto simp: mar_def dtypes_loc_def mar_numeric_def getitem_def mar_num_loop_for_rows)
      with b Some nt show ?thesis by (intro that(4))
    qed
  qed
qed

lemma nmar_cases [case_names invalid absent categorical numeric]:
  obtains
    "b < 0 \<or> 1 < b" "nmar d c b g = (Some (Exception ''beta value must be between 0 and 1''), d, g)"
  | "0 \<le> b" "b \<le> 1" "columns d c = None" "nmar d c b g = (Some KeyError, d, g)"
  | s cat_dict g1 where "0 \<le> b" "b \<le> 1" "columns d c = Some s" "dtype s = DObject \<or> dtype s = DBool"
      "cat_dict_of (unique (cells s)) Map.empty g = (cat_dict, g1)"
      "nmar d c b g =
         for_rows fst (\<lambda>_ x. cat_prob cat_dict b (snd x)) c (enumerate 0 (cells s)) d g1"
  | s where "0 \<le> b" "b \<le> 1" "columns d c = Some s" "dtype s = DInt64 \<or> dtype s = DFloat64"
      "nmar d c b g =
         for_rows fst (\<lambda>_ x. num_prob (np_mean (cells s)) (np_std (cells s)) b (snd x)) c
           (enumerate 0 (cells s)) d g"
proof (cases "b < 0 \<or> 1 < b")
  case True
  then show ?thesis by (intro that(1)) (auto simp: nmar_def)
next
  case False
  then have b: "0 \<le> b" "b \<le> 1" by auto
  show ?thesis
  proof (cases "columns d c")
    case None
    with b show ?thesis by (intro that(2)) (auto simp: nmar_def dtypes_loc_def)
  next
    case (Some s)
    show ?thesis
    proof (cases "dtype s = DObject \<or> dtype s = DBool")
      case True
      obtain cat_dict g1 where cd: "cat_dict_of (unique (cells s)) Map.empty g = (cat_dict, g1)"
        by (cases "cat_dict_of (unique (cells s)) Map.empty g")
      have "nmar d c b g =
         for_rows fst (\<lambda>_ x. cat_prob cat_dict b (snd x)) c (enumerate 0 (cells s)) d g1"
        using b Some True cd
        by (auto simp: nmar_def dtypes_loc_def nmar_categorical_def getitem_def nmar_cat_loop_for_rows)
      with b Some True cd show ?thesis by (intro that(3))
    next
      case False
      then have nt: "dtype s = DInt64 \<or> dtype s = DFloat64" by (cases "dtype s") auto
      have "nmar d c b g =
         for_rows fst (\<lambda>_ x. num_prob (np_mean (cells s)) (np_std (cells s)) b (snd x)) c
           (enumerate 0 (cells s)) d g"
        using b Some False
        by (auto simp: nmar_def dtypes_loc_def nmar_numeric_def getitem_def nmar_num_loop_for_rows)
      with b Some nt show ?thesis by (intro that(4))
    qed
  qed
qed

lemma np_mul_zero: "np_mul pr (Fin 0) = Fin a \<Longrightarrow> a = 0"
  by (cases pr) auto

lemma cat_prob_zero: "cat_prob cat_dict 0 v = Inr (Fin a) \<Longrightarrow> a = 0"
  by (auto simp: cat_prob_def dest: np_mul_zero split: sum.splits)

lemma num_prob_zero: "num_prob mean std 0 v = Inr (Fin a) \<Longrightarrow> a = 0"
  by (auto simp: num_prob_def dest: np_mul_zero split: sum.splits)

lemma at_row_cat_zero: "at_row dc (cat_prob cat_dict 0) d i = Inr (Fin a) \<Longrightarrow> a = 0"
  by (auto simp: at_row_def dest: cat_prob_zero split: sum.splits)

lemma at_row_num_zero: "at_row dc (num_prob mean std 0) d i = Inr (Fin a) \<Longrightarrow> a = 0"
  by (auto simp: at_row_def dest: num_prob_zero split: sum.splits)

lemma cat_dict_of_rng:
  "cat_dict_of cats m g = (m', g') \<Longrightarrow> g' = g\<lparr>n_normal := n_normal g + length cats\<rparr>"
proof (induction cats arbitrary: m g)
  case Nil
  then show ?case by simp
next
  case (Cons cat cats)
  from Cons.prems have "cat_dict_of cats (m(cat \<mapsto> sig (Fin (normals g (n_normal g)))))
      (g\<lparr>n_normal := Suc (n_normal g)\<rparr>) = (m', g')"
    by (simp add: normal_def)
  from Cons.IH[OF this] show ?case by simp
qed

lemma for_rows_zero:
  assumes res: "res = for_rows idx prob c xs d g1"
    and g1: "g1 = g\<lparr>n_normal := k\<rparr>" and u: "uniform_range g"
    and dist: "distinct (map idx xs)" and resp: "respects_marks prob c idx xs d"
    and zero: "\<And>x a. prob d x = Inr (Fin a) \<Longrightarrow> a = 0"
  shows "frame_after res = d \<and> set (new_trials g (rng_after res)) \<subseteq> {(Fin 0, 0)}"
proof -
  obtain e d' g' where run: "for_rows idx prob c xs d g1 = (e, d', g')"
    by (cases "for_rows idx prob c xs d g1")
  from u g1 have u1: "uniform_range g1" by (simp add: uniform_range_def)
  have "d' = d"
    using for_rows_no_positive[OF run u1] zero by auto
  from for_rows_trials[OF run dist resp] obtain ts where
    ts: "g' = g1\<lparr>n_uniform := n_uniform g1 + length ts, trials := trials g1 @ ts\<rparr>"
      "list_all2 (row_trial prob c idx (uniforms g1) d e d') (take (length ts) xs) ts"
    by blast
  have nt: "new_trials g g' = ts" using ts(1) g1 by (simp add: new_trials_def)
  have "t = (Fin 0, 0)" if "t \<in> set ts" for t
  proof -
    from that obtain i where i: "i < length ts" "t = ts ! i" by (auto simp: in_set_conv_nth)
    from ts(2) i(1) have "row_trial prob c idx (uniforms g1) d e d' (take (length ts) xs ! i) (ts ! i)"
      by (rule list_all2_nthD2)
    note rt = this[folded i(2)]
    from row_trialD(2)[OF rt] obtain a v where av: "fst t = Fin a" "v \<in> range (uniforms g1)"
      "snd t = (if v < a then 1 else 0)" by blast
    from row_trialD(1)[OF rt] av(1) zero have "a = 0" by simp
    moreover from av(2) u1 have "0 \<le> v" by (auto simp: uniform_range_def)
    ultimately show ?thesis using av by (cases t) simp
  qed
  with nt \<open>d' = d\<close> show ?thesis
    by (auto simp: res run frame_after_def rng_after_def)
qed

text \<open>
  C4. With \<open>b = 0\<close> (and uniform variates in \<open>[0, 1)\<close>) \<open>mar\<close> and \<open>nmar\<close> leave the
  frame exactly as it was, whatever the columns hold and whether or not the call raises;
  every draw that took place asked for probability 0 and returned 0.
\<close>

theorem zero_beta_marks_nothing:
  assumes "uniform_range g"
  shows "frame_after (mar d mc dc 0 g) = d
       \<and> set (new_trials g (rng_after (mar d mc dc 0 g))) \<subseteq> {(Fin 0, 0)}
       \<and> frame_after (nmar d c 0 g) = d
       \<and> set (new_trials g (rng_after (nmar d c 0 g))) \<subseteq> {(Fin 0, 0)}"
proof -
  have nil: "new_trials g g = []" by (simp add: new_trials_def)
  have dist1: "distinct (map id [0..<nrows d])" by simp
  have dist2: "distinct (map fst (enumerate 0 xs))" for xs :: "cell list"
    by (simp add: map_fst_enumerate)
  have m: "frame_after (mar d mc dc 0 g) = d
       \<and> set (new_trials g (rng_after (mar d mc dc 0 g))) \<subseteq> {(Fin 0, 0)}"
  proof (cases rule: mar_cases[of 0 d mc dc g])
    case invalid
    then show ?thesis by simp
  next
    case absent
    then show ?thesis by (simp add: frame_after_def rng_after_def nil)
  next
    case (categorical s cat_dict g1)
    show ?thesis
      by (rule for_rows_zero[OF categorical(6) cat_dict_of_rng[OF categorical(5)] assms dist1
            respects_marks_at_row]) (rule at_row_cat_zero)
  next
    case (numeric s)
    show ?thesis
      by (rule for_rows_zero[OF numeric(5) _ assms dist1 respects_marks_at_row, of "n_normal g"])
        (simp, rule at_row_num_zero)
  qed
  have n: "frame_after (nmar d c 0 g) = d
       \<and> set (new_trials g (rng_after (nmar d c 0 g))) \<subseteq> {(Fin 0, 0)}"
  proof (cases rule: nmar_cases[of 0 d c g])
    case invalid
    then show ?thesis by simp
  next
    case absent
    then show ?thesis by (simp add: frame_after_def rng_after_def nil)
  next
    case (categorical s cat_dict g1)
    show ?thesis
      by (rule for_rows_zero[OF categorical(6) cat_dict_of_rng[OF categorical(5)] assms dist2
            respects_marks_const]) (rule cat_prob_zero)
  next
    case (numeric s)
    show ?thesis
      by (rule for_rows_zero[OF numeric(5) _ assms dist2 respects_marks_const, of "n_normal g"])
        (simp, rule num_prob_zero)
  qed
  from m n show ?thesis by simp
qed

lemma example_zero_beta_returns:
  "raised (mar example_frame ''sales'' ''region'' 0 example_rng) = None
   \<and> new_trials example_rng (rng_after (mar example_frame ''sales'' ''region'' 0 example_rng)) =
       [(Fin 0, 0), (Fin 0, 0), (Fin 0, 0), (Fin 0, 0)]
   \<and> raised (nmar example_frame ''region'' 0 example_rng) = None"
  by (simp add: mar_def mar_categorical_def nmar_def nmar_categorical_def dtypes_loc_def getitem_def
      example_frame_def example_rng_def enumerate_eq_zip upt_rec random_choice_def random_sample_def
      atol_def set_nan_def unique_def normal_def iloc_def dict_get_def raised_def rng_after_def
      new_trials_def)

theorem zero_beta_marks_nothing_witness:
  "uniform_range example_rng
   \<and> frame_after (mar example_frame ''sales'' ''region'' 0 example_rng) = example_frame
   \<and> set (new_trials example_rng (rng_after (mar example_frame ''sales'' ''region'' 0 example_rng)))
       \<subseteq> {(Fin 0, 0)}
   \<and> frame_after (nmar example_frame ''sales'' 0 example_rng) = example_frame
   \<and> set (new_trials example_rng (rng_after (nmar example_frame ''sales'' 0 example_rng)))
       \<subseteq> {(Fin 0, 0)}
   \<and> raised (mar example_frame ''sales'' ''region'' 0 example_rng) = None"
proof -
  have h: "uniform_range example_rng"
    by (simp add: uniform_range_def example_rng_def)
  show ?thesis
    using h zero_beta_marks_nothing [OF h, of example_frame "''sales''" "''region''" "''sales''"]
      example_zero_beta_returns
    by simp
qed



lemma at_row_present:
  "columns d dc = Some s \<Longrightarrow>
     at_row dc f d i = (if i < length (cells s) then f (cells s ! i) else Inl IndexError)"
  by (simp add: at_row_def iloc_def)









lemma mar_numeric_run:
  assumes "0 \<le> b" "b \<le> 1" "columns d dc = Some s" "dtype s = DInt64 \<or> dtype s = DFloat64"
  shows "mar d mc dc b g =
    for_rows id (at_row dc (num_prob (np_mean (cells s)) (np_std (cells s)) b)) mc [0..<nrows d] d g"
  using assms
  by (auto simp: mar_def dtypes_loc_def mar_numeric_def getitem_def mar_num_loop_for_rows)

lemma nmar_numeric_run:
  assumes "0 \<le> b" "b \<le> 1" "columns d c = Some s" "dtype s = DInt64 \<or> dtype s = DFloat64"
  shows "nmar d c b g =
    for_rows fst (\<lambda>_ x. num_prob (np_mean (cells s)) (np_std (cells s)) b (snd x)) c
      (enumerate 0 (cells s)) d g"
  using assms
  by (auto simp: nmar_def dtypes_loc_def nmar_numeric_def getitem_def nmar_num_loop_for_rows)




lemma for_rows_frame_marked: "marked c UNIV d (frame_after (for_rows idx prob c xs d g))"
proof -
  obtain e d' g' where run: "for_rows idx prob c xs d g = (e, d', g')"
    by (cases "for_rows idx prob c xs d g")
  from for_rows_marked[OF run] have "marked c UNIV d d'" by (rule marked_mono) simp
  with run show ?thesis by (simp add: frame_after_def)
qed

lemma mcar_marked: "marked c UNIV d (frame_after (mcar d c p g))"
proof (cases "0 \<le> p \<and> p \<le> 1 \<and> columns d c \<noteq> None")
  case True
  then obtain s where "0 \<le> p" "p \<le> 1" "columns d c = Some s" by auto
  from mcar_present[OF this] show ?thesis by (simp only: for_rows_frame_marked)
next
  case False
  then have "frame_after (mcar d c p g) = d"
    by (auto simp: mcar_def getitem_def frame_after_def)
  then show ?thesis by (simp add: marked_refl)
qed

lemma mar_marked: "marked mc UNIV d (frame_after (mar d mc dc b g))"
proof (cases rule: mar_cases[of b d mc dc g])
  case invalid
  then show ?thesis by (simp add: frame_after_def marked_refl)
next
  case absent
  then show ?thesis by (simp add: frame_after_def marked_refl)
next
  case (categorical s cat_dict g1)
  then show ?thesis by (simp only: for_rows_frame_marked)
next
  case (numeric s)
  then show ?thesis by (simp only: for_rows_frame_marked)
qed

lemma nmar_marked: "marked c UNIV d (frame_after (nmar d c b g))"
proof (cases rule: nmar_cases[of b d c g])
  case invalid
  then show ?thesis by (simp add: frame_after_def marked_refl)
next
  case absent
  then show ?thesis by (simp add: frame_after_def marked_refl)
next
  case (categorical s cat_dict g1)
  then show ?thesis by (simp only: for_rows_frame_marked)
next
  case (numeric s)
  then show ?thesis by (simp only: for_rows_frame_marked)
qed

text \<open>
  C7, as the code has it. With the tuning parameter in \<open>[0, 1]\<close>: \<open>mcar\<close> and \<open>nmar\<close>
  on an absent target column, and \<open>mar\<close> on an absent dependent column, raise KeyError
  with the frame and the random state untouched; \<open>mar\<close> on an absent target column
  leaves the frame as it was, whatever else the call does.
\<close>

theorem absent_column_lookup_error:
  assumes "0 \<le> x" and "x \<le> 1" and "columns d c = None"
  shows "mcar d c x g = (Some KeyError, d, g)
       \<and> nmar d c x g = (Some KeyError, d, g)
       \<and> mar d mc c x g = (Some KeyError, d, g)
       \<and> frame_after (mar d c dc x g) = d"
proof -
  from assms have "mcar d c x g = (Some KeyError, d, g)"
    by (auto simp: mcar_def getitem_def)
  moreover from assms have "nmar d c x g = (Some KeyError, d, g)"
    by (auto simp: nmar_def dtypes_loc_def)
  moreover from assms have "mar d mc c x g = (Some KeyError, d, g)"
    by (auto simp: mar_def dtypes_loc_def)
  moreover have "frame_after (mar d c dc x g) = d"
    using marked_absent[OF mar_marked assms(3)] .
  ultimately show ?thesis by blast
qed

theorem absent_column_lookup_error_witness:
  "(0::real) \<le> 1 / 2 \<and> (1 / 2 :: real) \<le> 1 \<and> columns example_frame ''price'' = None
   \<and> mcar example_frame ''price'' (1 / 2) example_rng = (Some KeyError, example_frame, example_rng)
   \<and> nmar example_frame ''price'' (1 / 2) example_rng = (Some KeyError, example_frame, example_rng)
   \<and> mar example_frame ''sales'' ''price'' (1 / 2) example_rng =
       (Some KeyError, example_frame, example_rng)
   \<and> frame_after (mar example_frame ''price'' ''region'' (1 / 2) example_rng) = example_frame"
proof -
  have h1: "(0::real) \<le> 1 / 2" and h2: "(1 / 2 :: real) \<le> 1" by simp_all
  have h3: "columns example_frame ''price'' = None" by (simp add: example_frame_def)
  from h1 h2 h3 absent_column_lookup_error [OF h1 h2 h3, of example_rng "''sales''" "''region''"]
  show ?thesis by blast
qed

text \<open>
  C7 as stated fails: \<open>mar\<close> looks the target column up only when a trial returns 1.
  On the example frame, which has no column \<open>price\<close>, \<open>mar\<close> with target \<open>price\<close>,
  dependent column \<open>region\<close> and \<open>b = 0.1\<close> draws 0 four times (each uniform variate is
  at least 0.1, each trial probability 0.05) and returns normally; and \<open>mcar\<close> on
  \<open>price\<close> with \<open>p = 2\<close> raises the validation exception, not a lookup error.
\<close>

theorem absent_column_counterexample:
  "columns example_frame ''price'' = None
   \<and> raised (mar example_frame ''price'' ''region'' (1 / 10) example_rng) = None
   \<and> new_trials example_rng (rng_after (mar example_frame ''price'' ''region'' (1 / 10) example_rng)) =
       [(Fin (1 / 20), 0), (Fin (1 / 20), 0), (Fin (1 / 20), 0), (Fin (1 / 20), 0)]
   \<and> raised (mcar example_frame ''price'' 2 example_rng) =
       Some (Exception ''probability of missing values must be between 0 and 1'')"
  by (simp add: mar_def mar_categorical_def mcar_def dtypes_loc_def getitem_def
      example_frame_def example_rng_def upt_rec random_choice_def random_sample_def
      atol_def set_nan_def unique_def normal_def iloc_def dict_get_def raised_def rng_after_def
      new_trials_def)

text \<open>
  C9. A cell that holds the missing marker before a call of \<open>mcar\<close>, \<open>mar\<close> or \<open>nmar\<close>
  holds it after the call (whether the call returned or raised): the only write any
  of them makes is the missing marker.
\<close>

theorem missing_stays_missing:
  assumes "iloc d i n = Inr Missing"
  shows "iloc (frame_after (mcar d c p g)) i n = Inr Missing
       \<and> iloc (frame_after (mar d mc dc b g)) i n = Inr Missing
       \<and> iloc (frame_after (nmar d c b g)) i n = Inr Missing"
  using marked_iloc_missing[OF mcar_marked assms] marked_iloc_missing[OF mar_marked assms]
    marked_iloc_missing[OF nmar_marked assms]
  by blast

lemma gap_frame_runs:
  "raised (mcar gap_frame ''score'' (1 / 2) example_rng) = None
   \<and> raised (mar gap_frame ''score'' ''group'' (1 / 2) example_rng) = None
   \<and> raised (nmar gap_frame ''group'' (1 / 2) example_rng) = None"
  by (simp add: mar_def mar_categorical_def mcar_def nmar_def nmar_categorical_def dtypes_loc_def
      getitem_def gap_frame_def example_rng_def upt_rec enumerate_eq_zip random_choice_def
      random_sample_def atol_def set_nan_def unique_def normal_def iloc_def dict_get_def raised_def)

theorem missing_stays_missing_witness:
  "iloc gap_frame 1 ''score'' = Inr Missing
   \<and> iloc gap_frame 1 ''group'' = Inr Missing
   \<and> raised (mcar gap_frame ''score'' (1 / 2) example_rng) = None
   \<and> iloc (frame_after (mcar gap_frame ''score'' (1 / 2) example_rng)) 1 ''score'' = Inr Missing
   \<and> raised (mar gap_frame ''score'' ''group'' (1 / 2) example_rng) = None
   \<and> iloc (frame_after (mar gap_frame ''score'' ''group'' (1 / 2) example_rng)) 1 ''score'' = Inr Missing
   \<and> raised (nmar gap_frame ''group'' (1 / 2) example_rng) = None
   \<and> iloc (frame_after (nmar gap_frame ''group'' (1 / 2) example_rng)) 1 ''group'' = Inr Missing"
proof -
  have hs: "iloc gap_frame 1 ''score'' = Inr Missing"
    and hg: "iloc gap_frame 1 ''group'' = Inr Missing"
    by (simp_all add: iloc_def gap_frame_def)
  note S = missing_stays_missing [OF hs, of "''score''" "1 / 2" example_rng "''score''" "''group''" "1 / 2"]
  note G = missing_stays_missing [OF hg, of "''group''" "1 / 2" example_rng "''score''" "''group''" "1 / 2"]
  from hs hg S G gap_frame_runs show ?thesis by blast
qed












lemma numbers_replicate: "numbers (replicate n (Num v)) = replicate n v"
  by (induction n) simp_all

lemma np_mean_nonempty:
  "numbers cs \<noteq> [] \<Longrightarrow> np_mean cs = Fin (sum_list (numbers cs) / real (length (numbers cs)))"
  by (cases "numbers cs") (simp_all add: np_mean_def)

lemma np_std_nonempty:
  "numbers cs \<noteq> [] \<Longrightarrow>
     np_std cs =
       Fin (sqrt (sum_list (map (\<lambda>y. (y - sum_list (numbers cs) / real (length (numbers cs)))\<^sup>2)
                    (numbers cs)) / real (length (numbers cs))))"
  by (cases "numbers cs") (simp_all add: np_std_def Let_def)

lemma constant_mean_std:
  assumes "cs = replicate (Suc n) (Num v)"
  shows "np_mean cs = Fin v" and "np_std cs = Fin 0"
proof -
  have nums: "numbers cs = replicate (Suc n) v"
    unfolding assms by (rule numbers_replicate)
  have ne: "numbers cs \<noteq> []" unfolding nums by simp
  have len: "length (numbers cs) = Suc n" unfolding nums by simp
  have "sum_list (numbers cs) = real (Suc n) * v"
    unfolding nums by (rule sum_list_replicate)
  then have avg: "sum_list (numbers cs) / real (length (numbers cs)) = v"
    unfolding len by simp
  show "np_mean cs = Fin v"
    unfolding np_mean_nonempty[OF ne] avg ..
  have "map (\<lambda>y. (y - v)\<^sup>2) (numbers cs) = replicate (Suc n) 0"
    unfolding nums map_replicate by simp
  then have "sum_list (map (\<lambda>y. (y - v)\<^sup>2) (numbers cs)) = 0"
    by (simp only: sum_list_replicate mult_zero_right)
  then show "np_std cs = Fin 0"
    unfolding np_std_nonempty[OF ne] avg by simp
qed

lemma constant_row_raises:
  assumes "cs = replicate (Suc n) (Num v)"
  shows "num_prob (np_mean cs) (np_std cs) b (Num v) = Inr NaN"
  unfolding constant_mean_std[OF assms] by (simp add: num_prob_def norm_z_def)

lemma choice_nan: "random_choice NaN p0 g = Inl ValueError"
  by (simp add: random_choice_def)

text \<open>
  C1 fails on the code. When the dependent column is numeric and constant, the first row's
  z-score is \<open>0 / 0\<close>, which numpy evaluates to NaN; \<open>sig\<close> and the product with \<open>b\<close>
  keep the NaN, and \<open>np.random.choice\<close> raises ValueError on it. The call stops at the
  first row with the frame and the random state untouched: no trial is drawn, with
  probability \<open>0.5 * b\<close> or any other.
\<close>

theorem constant_numeric_column_raises:
  assumes "0 \<le> b" and "b \<le> 1" and "columns d c = Some s"
    and "dtype s = DInt64 \<or> dtype s = DFloat64" and "cells s = replicate (Suc n) (Num v)"
  shows "nmar d c b g = (Some ValueError, d, g)
       \<and> (0 < nrows d \<longrightarrow> mar d mc c b g = (Some ValueError, d, g))"
proof -
  note row = constant_row_raises[OF assms(5), of b]
  from assms(5) have hd: "cells s = Num v # replicate n (Num v)" by simp
  have en: "enumerate 0 (cells s) = (0, Num v) # enumerate 1 (replicate n (Num v))"
    unfolding hd by simp
  have "nmar d c b g = (Some ValueError, d, g)"
    unfolding nmar_numeric_run[OF assms(1-4)] en
    by (simp add: row choice_nan)
  moreover have "mar d mc c b g = (Some ValueError, d, g)" if "0 < nrows d"
  proof -
    from that have up: "[0..<nrows d] = 0 # [1..<nrows d]" by (simp add: upt_rec)
    from hd have "cells s ! 0 = Num v" "0 < length (cells s)" by simp_all
    with row have "at_row c (num_prob (np_mean (cells s)) (np_std (cells s)) b) d 0 = Inr NaN"
      by (simp add: at_row_present[OF assms(3)])
    then show ?thesis
      unfolding mar_numeric_run[OF assms(1-4)] up
      by (simp add: choice_nan)
  qed
  ultimately show ?thesis by blast
qed

theorem constant_numeric_column_raises_witness:
  "(0::real) \<le> 1 / 2 \<and> (1 / 2 :: real) \<le> 1
   \<and> columns constant_frame ''price'' = Some \<lparr>dtype = DFloat64, cells = [Num 5, Num 5, Num 5]\<rparr>
   \<and> (dtype \<lparr>dtype = DFloat64, cells = [Num 5, Num 5, Num 5]\<rparr> = DInt64
        \<or> dtype \<lparr>dtype = DFloat64, cells = [Num 5, Num 5, Num 5]\<rparr> = DFloat64)
   \<and> cells \<lparr>dtype = DFloat64, cells = [Num 5, Num 5, Num 5]\<rparr> = replicate (Suc 2) (Num 5)
   \<and> 0 < nrows constant_frame
   \<and> nmar constant_frame ''price'' (1 / 2) example_rng = (Some ValueError, constant_frame, example_rng)
   \<and> mar constant_frame ''sales'' ''price'' (1 / 2) example_rng =
       (Some ValueError, constant_frame, example_rng)"
proof -
  let ?s = "\<lparr>dtype = DFloat64, cells = [Num 5, Num 5, Num 5]\<rparr>"
  have h1: "(0::real) \<le> 1 / 2" and h2: "(1 / 2 :: real) \<le> 1" by simp_all
  have h3: "columns constant_frame ''price'' = Some ?s" by (simp add: constant_frame_def)
  have h4: "dtype ?s = DInt64 \<or> dtype ?s = DFloat64" by simp
  have h5: "cells ?s = replicate (Suc 2) (Num 5)" by (simp add: numeral_eq_Suc)
  have h6: "0 < nrows constant_frame" by (simp add: constant_frame_def)
  note T = constant_numeric_column_raises [OF h1 h2 h3 h4 h5, of example_rng "''sales''"]
  note n = T[THEN conjunct1] and m = T[THEN conjunct2, THEN mp, OF h6]
  show ?thesis
    by (intro conjI) (rule h1 h2 h3 h4 h5 h6 n m)+
qed

end
